theory Spec2Isabelle
  imports Main "HOL-Library.Sublist"
begin

section \<open>FlowScript: tokenizer and grammar validator\<close>

text \<open>
  The two programs \<^verbatim>\<open>FlowScriptX.py\<close> and \<^verbatim>\<open>flowscript2.py\<close> share, word for word, the
  token table, the tokenizer, the five shape validators and \<^verbatim>\<open>validate_syntax\<close>; these are
  modelled once. They differ in \<^verbatim>\<open>validate_invalid_command\<close>, which is modelled twice.

  Python strings are sequences of code points; here a string is a \<^typ>\<open>string\<close>, read as the
  code points below 256. On these, \<^verbatim>\<open>\d\<close> matches exactly the ten ASCII digits and
  \<^verbatim>\<open>re.IGNORECASE\<close> compares the simple lower-case forms of two characters.
\<close>

subsection \<open>Characters\<close>

definition is_digit :: "char \<Rightarrow> bool" where
  "is_digit c = (let n = (of_char c :: nat) in 48 \<le> n \<and> n \<le> 57)"

text \<open>Lower case of one code point below 256: A-Z and the accented capitals (not the
  multiplication sign, 215) move up by 32.\<close>

definition lower_char :: "char \<Rightarrow> char" where
  "lower_char c =
     (let n = (of_char c :: nat)
      in if (65 \<le> n \<and> n \<le> 90) \<or> (192 \<le> n \<and> n \<le> 222 \<and> n \<noteq> 215)
         then char_of (n + 32) else c)"

text \<open>\<^verbatim>\<open>str.lower()\<close>.\<close>

definition lower :: "string \<Rightarrow> string" where
  "lower s = map lower_char s"

text \<open>A literal character \<open>p\<close> of a pattern against the character \<open>x\<close> of the text; \<open>ic\<close> is
  the flag \<^verbatim>\<open>re.IGNORECASE\<close>.\<close>

definition lit_eq :: "bool \<Rightarrow> char \<Rightarrow> char \<Rightarrow> bool" where
  "lit_eq ic p x = (if ic then lower_char x = lower_char p else x = p)"

fun lit_prefix :: "bool \<Rightarrow> string \<Rightarrow> string \<Rightarrow> bool" where
  "lit_prefix ic [] s = True"
| "lit_prefix ic (p # ps) [] = False"
| "lit_prefix ic (p # ps) (x # xs) = (lit_eq ic p x \<and> lit_prefix ic ps xs)"

subsection \<open>Regular expressions, matched by backtracking\<close>

text \<open>
  The part of Python's \<^verbatim>\<open>re\<close> syntax that the programs use: a run of literal characters,
  \<^verbatim>\<open>\d\<close>, concatenation, alternation \<^verbatim>\<open>a|b|c\<close>, the greedy repetitions \<^verbatim>\<open>r{m,n}\<close> and
  \<^verbatim>\<open>r+\<close>, and a capturing group \<^verbatim>\<open>(r)\<close>.
\<close>

datatype regex =
    Str string
  | Digit
  | Cat "regex list"
  | Alts "regex list"
  | Rep nat nat regex
  | Plus regex
  | Group regex

text \<open>
  A matcher maps the text at the current position to every way the pattern can match
  there, in the order in which a backtracking engine tries them: each is the list of
  captured groups and the text that remains. The head of the list is the match that
  \<^verbatim>\<open>re\<close> reports.
\<close>

type_synonym result = "string list \<times> string"
type_synonym matcher = "string \<Rightarrow> result list"

definition then_match :: "result \<Rightarrow> matcher \<Rightarrow> result list" where
  "then_match r m = (case r of (c1, s1) \<Rightarrow> map (\<lambda>(c2, s2). (c1 @ c2, s2)) (m s1))"

fun cat_all :: "matcher list \<Rightarrow> matcher" where
  "cat_all [] s = [([], s)]"
| "cat_all (m # ms) s = concat (map (\<lambda>r. then_match r (cat_all ms)) (m s))"

definition alt_all :: "matcher list \<Rightarrow> matcher" where
  "alt_all ms s = concat (map (\<lambda>m. m s) ms)"

text \<open>Greedy \<^verbatim>\<open>r{lo,hi}\<close>: one more round is tried before stopping.\<close>

fun rep_all :: "matcher \<Rightarrow> nat \<Rightarrow> nat \<Rightarrow> matcher" where
  "rep_all m lo 0 s = (if lo = 0 then [([], s)] else [])"
| "rep_all m lo (Suc hi) s =
     concat (map (\<lambda>r. then_match r (rep_all m (lo - 1) hi)) (m s))
     @ (if lo = 0 then [([], s)] else [])"

text \<open>Greedy \<^verbatim>\<open>r*\<close>; a round that consumes nothing is not repeated.\<close>

function star_all :: "matcher \<Rightarrow> matcher" where
  "star_all m s =
     concat (map (\<lambda>r. if length (snd r) < length s
                      then map (\<lambda>(c2, s2). (fst r @ c2, s2)) (star_all m (snd r))
                      else [])
                 (m s))
     @ [([], s)]"
  by pat_completeness auto
termination
  by (relation "measure (\<lambda>(m, s). length s)") auto

declare star_all.simps [simp del]

definition plus_all :: "matcher \<Rightarrow> matcher" where
  "plus_all m s = concat (map (\<lambda>r. then_match r (star_all m)) (m s))"

primrec matches :: "bool \<Rightarrow> regex \<Rightarrow> matcher" where
  "matches ic (Str l) s = (if lit_prefix ic l s then [([], drop (length l) s)] else [])"
| "matches ic Digit s =
     (case s of [] \<Rightarrow> [] | x # xs \<Rightarrow> if is_digit x then [([], xs)] else [])"
| "matches ic (Cat rs) s = cat_all (map (matches ic) rs) s"
| "matches ic (Alts rs) s = alt_all (map (matches ic) rs) s"
| "matches ic (Rep lo hi r) s = rep_all (matches ic r) lo hi s"
| "matches ic (Plus r) s = plus_all (matches ic r) s"
| "matches ic (Group r) s =
     map (\<lambda>(c, s'). (c @ [take (length s - length s') s], s')) (matches ic r s)"

text \<open>\<^verbatim>\<open>w1|w2|...\<close> for literal words.\<close>

definition alts :: "string list \<Rightarrow> regex" where
  "alts ws = Alts (map Str ws)"

subsection \<open>The token table and the tokenizer\<close>

text \<open>\<^verbatim>\<open>TOKEN_PATTERNS\<close>, in the order of the dictionary.\<close>

definition TOKEN_PATTERNS :: "(string \<times> regex) list" where
  "TOKEN_PATTERNS =
    [(''EVENT'', alts [''on'', ''schedule'', ''if'', ''repeat'', ''activate'']),
     (''SENSOR'', alts [''motion'', ''temperature'', ''humidity'', ''door'', ''sound'',
                       ''triggered'']),
     (''DEVICE'', alts [''lights'', ''AC'', ''fan'', ''door'', ''alarm'', ''sprinkler'',
                       ''watering'']),
     (''OPERATION'', alts [''turn on'', ''turn off'', ''increase'', ''decrease'', ''open'',
                          ''close'', ''start'', ''check'']),
     (''MODE'', alts [''night mode'', ''vacation mode'', ''silent mode'']),
     (''TIME'', Cat [Rep 1 2 Digit, Str '':'', Rep 2 2 Digit, Str '' '',
                    Group (alts [''AM'', ''PM''])]),
     (''TIME_INTERVAL'', Cat [Plus Digit, Str '' '',
                             Group (alts [''seconds'', ''minutes'', ''hours''])]),
     (''NUMBER'', Plus Digit),
     (''OPERATOR'', alts [''>'', ''<'', ''>='', ''<='', ''=='']),
     (''THEN'', Str ''then''),
     (''FROM_TO'', alts [''from'', ''to'']),
     (''DETECTED'', Str ''detected''),
     (''AT'', Str ''at''),
     (''EVERY'', Str ''every'')]"

text \<open>
  \<^verbatim>\<open>TOKEN_REGEX\<close> is the alternation of one named group per entry of the table. A match
  at a position is the match of the first entry that matches there, and its
  \<^verbatim>\<open>lastgroup\<close> is the name of that entry (the named group closes last). The result is
  that name and the text after the match.
\<close>

fun first_match ::
  "bool \<Rightarrow> (string \<times> regex) list \<Rightarrow> string \<Rightarrow> (string \<times> string) option" where
  "first_match ic [] s = None"
| "first_match ic ((key, pattern) # rules) s =
     (case matches ic pattern s of
        [] \<Rightarrow> first_match ic rules s
      | (caps, rest) # _ \<Rightarrow> Some (key, rest))"

text \<open>
  \<^verbatim>\<open>finditer\<close> with the loop body of \<^verbatim>\<open>tokenize\<close>: scan from the left, emit the pair of
  group name and matched text, go on behind the match; a character where nothing
  matches is skipped. (No entry of the table matches the empty text, so the last branch
  is never taken with \<open>TOKEN_PATTERNS\<close>.)
\<close>

function finditer ::
  "bool \<Rightarrow> (string \<times> regex) list \<Rightarrow> string \<Rightarrow> (string \<times> string) list" where
  "finditer ic rules [] = []"
| "finditer ic rules (c # cs) =
     (case first_match ic rules (c # cs) of
        None \<Rightarrow> finditer ic rules cs
      | Some (key, rest) \<Rightarrow>
          if length rest < length (c # cs)
          then (key, take (length (c # cs) - length rest) (c # cs)) # finditer ic rules rest
          else (key, []) # finditer ic rules cs)"
  by pat_completeness auto
termination
  by (relation "measure (\<lambda>(ic, rules, s). length s)") auto

definition tokenize :: "string \<Rightarrow> (string \<times> string) list" where
  "tokenize command = finditer True TOKEN_PATTERNS command"

subsection \<open>Shapes and \<open>validate_syntax\<close>\<close>

definition match_pattern :: "(string \<times> string) list \<Rightarrow> string list \<Rightarrow> bool \<times> string" where
  "match_pattern tokens expected_pattern =
     (let extracted_types = map fst tokens
      in (extracted_types = expected_pattern,
          if extracted_types = expected_pattern then ''Valid command.''
          else ''Syntax error in command.''))"

definition validate_event :: "(string \<times> string) list \<Rightarrow> bool \<times> string" where
  "validate_event tokens =
     match_pattern tokens [''EVENT'', ''SENSOR'', ''DETECTED'', ''THEN'', ''OPERATION'', ''DEVICE'']"

definition validate_schedule :: "(string \<times> string) list \<Rightarrow> bool \<times> string" where
  "validate_schedule tokens =
     match_pattern tokens [''EVENT'', ''OPERATION'', ''DEVICE'', ''AT'', ''TIME'']"

definition validate_condition :: "(string \<times> string) list \<Rightarrow> bool \<times> string" where
  "validate_condition tokens =
     match_pattern tokens
       [''EVENT'', ''SENSOR'', ''OPERATOR'', ''NUMBER'', ''THEN'', ''OPERATION'', ''DEVICE'']"

definition validate_loop :: "(string \<times> string) list \<Rightarrow> bool \<times> string" where
  "validate_loop tokens =
     match_pattern tokens [''EVENT'', ''OPERATION'', ''SENSOR'', ''EVERY'', ''TIME_INTERVAL'']"

definition validate_mode :: "(string \<times> string) list \<Rightarrow> bool \<times> string" where
  "validate_mode tokens =
     match_pattern tokens [''EVENT'', ''MODE'', ''FROM_TO'', ''TIME'', ''FROM_TO'', ''TIME'']"

fun validate_syntax :: "(string \<times> string) list \<Rightarrow> bool \<times> string" where
  "validate_syntax [] = (False, ''Empty command.'')"
| "validate_syntax (t # ts) =
     (let first_token = lower (snd t)
      in if first_token = ''on'' then validate_event (t # ts)
         else if first_token = ''schedule'' then validate_schedule (t # ts)
         else if first_token = ''if'' then validate_condition (t # ts)
         else if first_token = ''repeat'' then validate_loop (t # ts)
         else if first_token = ''activate'' then validate_mode (t # ts)
         else (False, ''Invalid command start.''))"

subsection \<open>The diagnostic chain\<close>

text \<open>\<^verbatim>\<open>sub in text\<close> on strings.\<close>

fun contains :: "string \<Rightarrow> string \<Rightarrow> bool" where
  "contains sub [] = (sub = [])"
| "contains sub (c # cs) = (prefix sub (c # cs) \<or> contains sub cs)"

text \<open>\<^verbatim>\<open>re.search\<close>: the groups of the leftmost match.\<close>

fun search :: "bool \<Rightarrow> regex \<Rightarrow> string \<Rightarrow> string list option" where
  "search ic r [] = (case matches ic r [] of [] \<Rightarrow> None | (caps, rest) # _ \<Rightarrow> Some caps)"
| "search ic r (c # cs) =
     (case matches ic r (c # cs) of [] \<Rightarrow> search ic r cs | (caps, rest) # _ \<Rightarrow> Some caps)"

text \<open>The pattern of the time check, \<^verbatim>\<open>(\d{1,2}):(\d{2}) (AM|PM)\<close>, compiled without flags.\<close>

definition TIME_SEARCH :: regex where
  "TIME_SEARCH =
     Cat [Group (Rep 1 2 Digit), Str '':'', Group (Rep 2 2 Digit), Str '' '',
          Group (alts [''AM'', ''PM''])]"

text \<open>\<^verbatim>\<open>int\<close> on a string of ASCII digits (the groups it is applied to hold nothing else).\<close>

definition py_int :: "string \<Rightarrow> int" where
  "py_int ds = foldl (\<lambda>n c. 10 * n + (int (of_char c) - 48)) 0 ds"

text \<open>
  The time check of both chains: the leftmost match is taken, its three groups are
  unpacked, and the hour and the minute are tested.
\<close>

definition time_invalid :: "string \<Rightarrow> bool" where
  "time_invalid command =
     (case search False TIME_SEARCH command of
        None \<Rightarrow> False
      | Some groups \<Rightarrow>
          (case groups of
             [hours, minutes, meridiem] \<Rightarrow>
               \<not> (1 \<le> py_int hours \<and> py_int hours \<le> 12)
               \<or> \<not> (0 \<le> py_int minutes \<and> py_int minutes \<le> 59)
           | _ \<Rightarrow> False))"

text \<open>The messages. \<open>quoted s\<close> is \<open>s\<close> between two apostrophes.\<close>

definition quoted :: "string \<Rightarrow> string" where
  "quoted s = CHR 0x27 # s @ [CHR 0x27]"

definition MSG_WHEN :: string where
  "MSG_WHEN = quoted ''when'' @ '' is not a valid keyword. Correct syntax: ''
     @ quoted ''on motion detected then turn on lights'' @ ''.''"

definition MSG_OPERATOR :: string where
  "MSG_OPERATOR = ''Missing value after operator. Ensure a numeric condition, e.g., ''
     @ quoted ''if temperature > 30 then turn on AC'' @ ''.''"

definition MSG_IF_THEN :: string where
  "MSG_IF_THEN = ''The '' @ quoted ''then'' @ '' keyword is required before ''
     @ quoted ''start AC'' @ ''.''"

definition MSG_OPEN_LIGHTS :: string where
  "MSG_OPEN_LIGHTS = quoted ''open lights'' @ '' is not a valid action. The correct operation is ''
     @ quoted ''turn on lights'' @ ''.''"

definition MSG_TIME :: string where
  "MSG_TIME = ''Invalid time format. Ensure hours are between 1-12 and minutes between 00-59.''"

definition MSG_FROM_TO :: string where
  "MSG_FROM_TO = ''The '' @ quoted ''from'' @ '' and '' @ quoted ''to''
     @ '' keywords are missing. Correct syntax: ''
     @ quoted ''activate silent mode from 10 PM to 6 AM'' @ ''.''"

definition MSG_ON_THEN :: string where
  "MSG_ON_THEN = ''The '' @ quoted ''then'' @ '' keyword is required. Correct syntax: ''
     @ quoted ''on motion detected then turn on lights'' @ ''.''"

definition MSG_EVERY :: string where
  "MSG_EVERY = ''The '' @ quoted ''every'' @ '' keyword is required. Correct syntax: ''
     @ quoted ''repeat check temperature every 10 minutes'' @ ''.''"

definition MSG_FALLBACK :: string where
  "MSG_FALLBACK = ''Error: Invalid command. Ensure your syntax follows the required format.''"

text \<open>The test \<^verbatim>\<open>any(t[0] == "OPERATION" and t[1] == "open" ...) and any(...)\<close>.\<close>

definition open_lights :: "(string \<times> string) list \<Rightarrow> bool" where
  "open_lights tokens =
     ((\<exists>t \<in> set tokens. fst t = ''OPERATION'' \<and> snd t = ''open'')
      \<and> (\<exists>t \<in> set tokens. fst t = ''DEVICE'' \<and> snd t = ''lights''))"

text \<open>
  \<^verbatim>\<open>validate_invalid_command\<close> of \<^verbatim>\<open>FlowScriptX.py\<close>. The three tests for a missing
  keyword look for the lower-case words \<^verbatim>\<open>"then"\<close> and \<^verbatim>\<open>"every"\<close> among the token types,
  as the source does.
\<close>

definition validate_invalid_command :: "string \<Rightarrow> (string \<times> string) list \<Rightarrow> string" where
  "validate_invalid_command command tokens =
     (let token_types = map fst tokens
      in if contains ''when'' command then MSG_WHEN
         else if ''OPERATOR'' \<in> set token_types \<and> ''NUMBER'' \<notin> set token_types
           then MSG_OPERATOR
         else if contains ''if'' command \<and> ''then'' \<notin> set (map fst tokens)
           then MSG_IF_THEN
         else if open_lights tokens then MSG_OPEN_LIGHTS
         else if time_invalid command then MSG_TIME
         else if contains ''activate'' command
                 \<and> (\<not> contains ''from'' command \<or> \<not> contains ''to'' command)
           then MSG_FROM_TO
         else if contains ''on'' command \<and> ''then'' \<notin> set (map fst tokens)
           then MSG_ON_THEN
         else if contains ''repeat'' command \<and> ''every'' \<notin> set (map fst tokens)
           then MSG_EVERY
         else MSG_FALLBACK)"

text \<open>\<^verbatim>\<open>validate_invalid_command\<close> of \<^verbatim>\<open>flowscript2.py\<close>.\<close>

definition validate_invalid_command2 :: "string \<Rightarrow> (string \<times> string) list \<Rightarrow> string" where
  "validate_invalid_command2 command tokens =
     (if contains ''when'' command then MSG_WHEN
      else if contains ''if'' command \<and> ''then'' \<notin> set (map fst tokens)
        then MSG_IF_THEN
      else if open_lights tokens then MSG_OPEN_LIGHTS
      else if time_invalid command then MSG_TIME
      else if contains ''activate'' command
              \<and> (\<not> contains ''from'' command \<or> \<not> contains ''to'' command)
        then MSG_FROM_TO
      else MSG_FALLBACK)"

subsection \<open>One round of the main loop\<close>

text \<open>
  What the loop of \<^verbatim>\<open>FlowScriptX.py\<close> does with one command: the row goes to the table of
  valid commands with the message of \<open>validate_syntax\<close>, or to the table of invalid
  commands with the message of the diagnostic chain. (The wrapping of the columns for
  display is left out.)
\<close>

datatype row = ValidRow string | InvalidRow string

definition main_loop_row :: "string \<Rightarrow> row" where
  "main_loop_row user_input =
     (let tokens = tokenize user_input;
          (valid, message) = validate_syntax tokens
      in if valid then ValidRow message
         else InvalidRow (validate_invalid_command user_input tokens))"

subsection \<open>Notions of the specification\<close>

text \<open>
  The entries of a table whose pattern can match at the current position, in the order
  of the table. A position is unambiguous when this list has one element.
\<close>

definition matching_rules :: "bool \<Rightarrow> (string \<times> regex) list \<Rightarrow> string \<Rightarrow> string list" where
  "matching_rules ic rules s = map fst (filter (\<lambda>rule. matches ic (snd rule) s \<noteq> []) rules)"



text \<open>
  A character that a pattern can never consume: it is no digit where the pattern has
  \<^verbatim>\<open>\d\<close>, and it matches no literal character of the pattern. Before such a character
  a matcher behaves as at the end of the text: it is framed.
\<close>

fun avoids :: "bool \<Rightarrow> char \<Rightarrow> regex \<Rightarrow> bool" where
  "avoids ic b (Str l) = (\<forall>p \<in> set l. \<not> lit_eq ic p b)"
| "avoids ic b Digit = (\<not> is_digit b)"
| "avoids ic b (Cat rs) = (\<forall>r \<in> set rs. avoids ic b r)"
| "avoids ic b (Alts rs) = (\<forall>r \<in> set rs. avoids ic b r)"
| "avoids ic b (Rep lo hi r) = avoids ic b r"
| "avoids ic b (Plus r) = avoids ic b r"
| "avoids ic b (Group r) = avoids ic b r"

definition frame_result :: "string \<Rightarrow> result \<Rightarrow> result" where
  "frame_result t r = (fst r, snd r @ t)"

definition framed :: "string \<Rightarrow> matcher \<Rightarrow> bool" where
  "framed t m = (\<forall>s. m (s @ t) = map (frame_result t) (m s))"

text \<open>A matcher only consumes: what remains is a suffix of the text.\<close>

definition consuming :: "matcher \<Rightarrow> bool" where
  "consuming m = (\<forall>s. \<forall>r \<in> set (m s). suffix (snd r) s)"

text \<open>
  A text that does not end in a digit or a colon, and the matchers that are framed on
  such texts and leave such texts (the patterns that begin with digits, before a digit).
\<close>

definition closed_text :: "string \<Rightarrow> bool" where
  "closed_text s = (s \<noteq> [] \<and> \<not> is_digit (last s) \<and> last s \<noteq> CHR '':'')"

definition framed_closed :: "string \<Rightarrow> matcher \<Rightarrow> bool" where
  "framed_closed t m = (\<forall>s. closed_text s \<longrightarrow> m (s @ t) = map (frame_result t) (m s))"

definition keeps_closed :: "matcher \<Rightarrow> bool" where
  "keeps_closed m = (\<forall>s. closed_text s \<longrightarrow> (\<forall>r \<in> set (m s). closed_text (snd r)))"

text \<open>
  The forms of the specification: a time H:MM AM/PM (one or two digits, a colon, two
  digits, a space, AM or PM) and an interval N seconds|minutes|hours.
\<close>

definition time_form :: "string \<Rightarrow> string \<Rightarrow> string \<Rightarrow> bool" where
  "time_form h m mer =
     (list_all is_digit h \<and> (length h = 1 \<or> length h = 2)
      \<and> list_all is_digit m \<and> length m = 2
      \<and> (mer = ''AM'' \<or> mer = ''PM''))"

definition interval_form :: "string \<Rightarrow> string \<Rightarrow> bool" where
  "interval_form n unit =
     (n \<noteq> [] \<and> list_all is_digit n
      \<and> (unit = ''seconds'' \<or> unit = ''minutes'' \<or> unit = ''hours''))"

section \<open>Properties\<close>

subsection \<open>The five canonical commands\<close>

lemma tokenize_example_on:
  "tokenize ''on motion detected then turn on lights'' =
     [(''EVENT'', ''on''), (''SENSOR'', ''motion''), (''DETECTED'', ''detected''),
      (''THEN'', ''then''), (''OPERATION'', ''turn on''), (''DEVICE'', ''lights'')]"
  by code_simp

lemma tokenize_example_schedule:
  "tokenize ''schedule turn on watering at 6:00 AM'' =
     [(''EVENT'', ''schedule''), (''OPERATION'', ''turn on''), (''DEVICE'', ''watering''),
      (''AT'', ''at''), (''TIME'', ''6:00 AM'')]"
  by code_simp

lemma tokenize_example_if:
  "tokenize ''if temperature > 30 then turn on AC'' =
     [(''EVENT'', ''if''), (''SENSOR'', ''temperature''), (''OPERATOR'', ''>''),
      (''NUMBER'', ''30''), (''THEN'', ''then''), (''OPERATION'', ''turn on''),
      (''DEVICE'', ''AC'')]"
  by code_simp

lemma tokenize_example_repeat:
  "tokenize ''repeat check temperature every 10 minutes'' =
     [(''EVENT'', ''repeat''), (''OPERATION'', ''check''), (''SENSOR'', ''temperature''),
      (''EVERY'', ''every''), (''TIME_INTERVAL'', ''10 minutes'')]"
  by code_simp

lemma tokenize_example_activate:
  "tokenize ''activate night mode from 10:00 PM to 6:00 AM'' =
     [(''EVENT'', ''activate''), (''MODE'', ''night mode''), (''FROM_TO'', ''from''),
      (''TIME'', ''10:00 PM''), (''FROM_TO'', ''to''), (''TIME'', ''6:00 AM'')]"
  by code_simp

lemma validate_syntax_examples:
  "validate_syntax [(''EVENT'', ''on''), (''SENSOR'', ''motion''), (''DETECTED'', ''detected''),
      (''THEN'', ''then''), (''OPERATION'', ''turn on''), (''DEVICE'', ''lights'')]
     = (True, ''Valid command.'')"
  "validate_syntax [(''EVENT'', ''schedule''), (''OPERATION'', ''turn on''), (''DEVICE'', ''watering''),
      (''AT'', ''at''), (''TIME'', ''6:00 AM'')] = (True, ''Valid command.'')"
  "validate_syntax [(''EVENT'', ''if''), (''SENSOR'', ''temperature''), (''OPERATOR'', ''>''),
      (''NUMBER'', ''30''), (''THEN'', ''then''), (''OPERATION'', ''turn on''),
      (''DEVICE'', ''AC'')] = (True, ''Valid command.'')"
  "validate_syntax [(''EVENT'', ''repeat''), (''OPERATION'', ''check''), (''SENSOR'', ''temperature''),
      (''EVERY'', ''every''), (''TIME_INTERVAL'', ''10 minutes'')] = (True, ''Valid command.'')"
  "validate_syntax [(''EVENT'', ''activate''), (''MODE'', ''night mode''), (''FROM_TO'', ''from''),
      (''TIME'', ''10:00 PM''), (''FROM_TO'', ''to''), (''TIME'', ''6:00 AM'')] = (True, ''Valid command.'')"
  by code_simp+

text \<open>
  Claim C1. Each of the five example commands of the programs' own test list, one per
  shape (on, schedule, if, repeat, activate), tokenizes to exactly the kinds of its
  shape, and \<open>validate_syntax\<close> answers valid with the message "Valid command.".
\<close>

theorem C1_canonical_examples:
  "map fst (tokenize ''on motion detected then turn on lights'')
     = [''EVENT'', ''SENSOR'', ''DETECTED'', ''THEN'', ''OPERATION'', ''DEVICE'']
   \<and> validate_syntax (tokenize ''on motion detected then turn on lights'')
     = (True, ''Valid command.'')
   \<and> map fst (tokenize ''schedule turn on watering at 6:00 AM'')
     = [''EVENT'', ''OPERATION'', ''DEVICE'', ''AT'', ''TIME'']
   \<and> validate_syntax (tokenize ''schedule turn on watering at 6:00 AM'')
     = (True, ''Valid command.'')
   \<and> map fst (tokenize ''if temperature > 30 then turn on AC'')
     = [''EVENT'', ''SENSOR'', ''OPERATOR'', ''NUMBER'', ''THEN'', ''OPERATION'', ''DEVICE'']
   \<and> validate_syntax (tokenize ''if temperature > 30 then turn on AC'')
     = (True, ''Valid command.'')
   \<and> map fst (tokenize ''repeat check temperature every 10 minutes'')
     = [''EVENT'', ''OPERATION'', ''SENSOR'', ''EVERY'', ''TIME_INTERVAL'']
   \<and> validate_syntax (tokenize ''repeat check temperature every 10 minutes'')
     = (True, ''Valid command.'')
   \<and> map fst (tokenize ''activate night mode from 10:00 PM to 6:00 AM'')
     = [''EVENT'', ''MODE'', ''FROM_TO'', ''TIME'', ''FROM_TO'', ''TIME'']
   \<and> validate_syntax (tokenize ''activate night mode from 10:00 PM to 6:00 AM'')
     = (True, ''Valid command.'')"
  by (simp only: tokenize_example_on tokenize_example_schedule tokenize_example_if
      tokenize_example_repeat tokenize_example_activate validate_syntax_examples
      list.map fst_conv simp_thms)


subsection \<open>A condition without then\<close>

lemma tokenize_if_without_then:
  "tokenize ''if temperature > 30 start AC'' =
     [(''EVENT'', ''if''), (''SENSOR'', ''temperature''), (''OPERATOR'', ''>''),
      (''NUMBER'', ''30''), (''OPERATION'', ''start''), (''DEVICE'', ''AC'')]"
  by code_simp

text \<open>
  Claim C8. The command "if temperature > 30 start AC" is invalid; its kinds include
  OPERATOR and NUMBER and no THEN; the condition of rule (b) is false, and the chain
  answers with the message of rule (c), which is not the message of rule (b).
\<close>

theorem C8_if_without_then:
  "fst (validate_syntax (tokenize ''if temperature > 30 start AC'')) = False
   \<and> ''OPERATOR'' \<in> set (map fst (tokenize ''if temperature > 30 start AC''))
   \<and> ''NUMBER'' \<in> set (map fst (tokenize ''if temperature > 30 start AC''))
   \<and> ''THEN'' \<notin> set (map fst (tokenize ''if temperature > 30 start AC''))
   \<and> validate_invalid_command ''if temperature > 30 start AC''
         (tokenize ''if temperature > 30 start AC'') = MSG_IF_THEN
   \<and> main_loop_row ''if temperature > 30 start AC'' = InvalidRow MSG_IF_THEN
   \<and> MSG_IF_THEN \<noteq> MSG_OPERATOR"
  unfolding main_loop_row_def tokenize_if_without_then
  by code_simp

theorem C8_if_without_then_witness:
  "validate_invalid_command ''if temperature > 30 start AC''
     [(''EVENT'', ''if''), (''SENSOR'', ''temperature''), (''OPERATOR'', ''>''),
      (''NUMBER'', ''30''), (''OPERATION'', ''start''), (''DEVICE'', ''AC'')] = MSG_IF_THEN"
  using C8_if_without_then unfolding tokenize_if_without_then by simp

subsection \<open>The kinds of the emitted tokens\<close>

lemma first_match_key:
  "first_match ic rules s = Some (key, rest) \<Longrightarrow> key \<in> fst ` set rules"
  by (induction rules) (auto split: list.splits)

lemma finditer_keys: "fst ` set (finditer ic rules s) \<subseteq> fst ` set rules"
proof (induction ic rules s rule: finditer.induct)
  case (1 ic rules)
  then show ?case by simp
next
  case (2 ic rules c cs)
  show ?case
  proof (cases "first_match ic rules (c # cs)")
    case None
    with 2 show ?thesis by simp
  next
    case (Some kr)
    obtain key rest where kr: "kr = (key, rest)" by (cases kr)
    have k: "key \<in> fst ` set rules" using Some kr first_match_key by blast
    show ?thesis
    proof (cases "length rest < length (c # cs)")
      case True
      with 2(2)[OF Some[unfolded kr] refl True] k Some kr show ?thesis by auto
    next
      case False
      with 2(3)[OF Some[unfolded kr] refl False] k Some kr show ?thesis by auto
    qed
  qed
qed

lemma tokenize_types:
  "set (map fst (tokenize command)) \<subseteq> set (map fst TOKEN_PATTERNS)"
  using finditer_keys[of True TOKEN_PATTERNS command] by (simp add: tokenize_def)

lemma TOKEN_PATTERNS_keys:
  "map fst TOKEN_PATTERNS =
     [''EVENT'', ''SENSOR'', ''DEVICE'', ''OPERATION'', ''MODE'', ''TIME'', ''TIME_INTERVAL'',
      ''NUMBER'', ''OPERATOR'', ''THEN'', ''FROM_TO'', ''DETECTED'', ''AT'', ''EVERY'']"
  by (simp add: TOKEN_PATTERNS_def)

lemma lower_case_never_a_type:
  "''then'' \<notin> set (map fst (tokenize command))"
  "''every'' \<notin> set (map fst (tokenize command))"
  using tokenize_types[of command] unfolding TOKEN_PATTERNS_keys by auto


subsection \<open>The messages are pairwise different\<close>

lemma MSG_distinct:
  "distinct [MSG_WHEN, MSG_OPERATOR, MSG_IF_THEN, MSG_OPEN_LIGHTS, MSG_TIME, MSG_FROM_TO,
             MSG_ON_THEN, MSG_EVERY, MSG_FALLBACK]"
  by (simp add: MSG_WHEN_def MSG_OPERATOR_def MSG_IF_THEN_def MSG_OPEN_LIGHTS_def MSG_TIME_def
      MSG_FROM_TO_def MSG_ON_THEN_def MSG_EVERY_def MSG_FALLBACK_def quoted_def)

lemma MSG_neq:
  "MSG_WHEN \<noteq> MSG_OPERATOR" "MSG_WHEN \<noteq> MSG_IF_THEN" "MSG_WHEN \<noteq> MSG_OPEN_LIGHTS"
  "MSG_WHEN \<noteq> MSG_TIME" "MSG_WHEN \<noteq> MSG_FROM_TO" "MSG_WHEN \<noteq> MSG_ON_THEN"
  "MSG_WHEN \<noteq> MSG_EVERY" "MSG_WHEN \<noteq> MSG_FALLBACK"
  "MSG_OPERATOR \<noteq> MSG_IF_THEN" "MSG_OPERATOR \<noteq> MSG_OPEN_LIGHTS" "MSG_OPERATOR \<noteq> MSG_TIME"
  "MSG_OPERATOR \<noteq> MSG_FROM_TO" "MSG_OPERATOR \<noteq> MSG_ON_THEN" "MSG_OPERATOR \<noteq> MSG_EVERY"
  "MSG_OPERATOR \<noteq> MSG_FALLBACK"
  "MSG_IF_THEN \<noteq> MSG_OPEN_LIGHTS" "MSG_IF_THEN \<noteq> MSG_TIME" "MSG_IF_THEN \<noteq> MSG_FROM_TO"
  "MSG_IF_THEN \<noteq> MSG_ON_THEN" "MSG_IF_THEN \<noteq> MSG_EVERY" "MSG_IF_THEN \<noteq> MSG_FALLBACK"
  "MSG_OPEN_LIGHTS \<noteq> MSG_TIME" "MSG_OPEN_LIGHTS \<noteq> MSG_FROM_TO" "MSG_OPEN_LIGHTS \<noteq> MSG_ON_THEN"
  "MSG_OPEN_LIGHTS \<noteq> MSG_EVERY" "MSG_OPEN_LIGHTS \<noteq> MSG_FALLBACK"
  "MSG_TIME \<noteq> MSG_FROM_TO" "MSG_TIME \<noteq> MSG_ON_THEN" "MSG_TIME \<noteq> MSG_EVERY"
  "MSG_TIME \<noteq> MSG_FALLBACK"
  "MSG_FROM_TO \<noteq> MSG_ON_THEN" "MSG_FROM_TO \<noteq> MSG_EVERY" "MSG_FROM_TO \<noteq> MSG_FALLBACK"
  "MSG_ON_THEN \<noteq> MSG_EVERY" "MSG_ON_THEN \<noteq> MSG_FALLBACK"
  "MSG_EVERY \<noteq> MSG_FALLBACK"
  using MSG_distinct by simp_all

lemmas MSG_neq_sym = MSG_neq MSG_neq[symmetric]


subsection \<open>The rule for a condition without then\<close>

text \<open>
  On the tokens of the command itself, the test for a missing then is always true: no
  token type is the lower-case word. Rule (c) therefore depends on the raw text only.
\<close>

lemma rule_c_ignores_then_token:
  assumes "\<not> contains ''when'' command"
    and "\<not> (''OPERATOR'' \<in> set (map fst (tokenize command))
             \<and> ''NUMBER'' \<notin> set (map fst (tokenize command)))"
  shows "validate_invalid_command command (tokenize command) = MSG_IF_THEN
           \<longleftrightarrow> contains ''if'' command"
  using assms lower_case_never_a_type[of command]
  by (simp add: validate_invalid_command_def Let_def MSG_neq_sym)

lemma rule_c_ignores_then_token2:
  assumes "\<not> contains ''when'' command"
  shows "validate_invalid_command2 command (tokenize command) = MSG_IF_THEN
           \<longleftrightarrow> contains ''if'' command"
  using assms lower_case_never_a_type[of command]
  by (simp add: validate_invalid_command2_def Let_def MSG_neq_sym)

lemma tokenize_if_without_device:
  "tokenize ''if temperature > 30 then turn on'' =
     [(''EVENT'', ''if''), (''SENSOR'', ''temperature''), (''OPERATOR'', ''>''),
      (''NUMBER'', ''30''), (''THEN'', ''then''), (''OPERATION'', ''turn on'')]"
  by code_simp

text \<open>
  Claim C2, at the input "if temperature > 30 then turn on". The command has a THEN
  token and does not match its shape; rules (a) and (b) do not apply; both programs
  still answer with the message of rule (c), that then is required.
\<close>

theorem C2_then_present_still_reported:
  "''THEN'' \<in> set (map fst (tokenize ''if temperature > 30 then turn on''))
   \<and> fst (validate_syntax (tokenize ''if temperature > 30 then turn on'')) = False
   \<and> validate_invalid_command ''if temperature > 30 then turn on''
         (tokenize ''if temperature > 30 then turn on'') = MSG_IF_THEN
   \<and> validate_invalid_command2 ''if temperature > 30 then turn on''
         (tokenize ''if temperature > 30 then turn on'') = MSG_IF_THEN
   \<and> main_loop_row ''if temperature > 30 then turn on'' = InvalidRow MSG_IF_THEN"
  unfolding main_loop_row_def tokenize_if_without_device
  by code_simp

theorem C2_then_present_still_reported_witness:
  "validate_invalid_command ''if temperature > 30 then turn on''
     [(''EVENT'', ''if''), (''SENSOR'', ''temperature''), (''OPERATOR'', ''>''),
      (''NUMBER'', ''30''), (''THEN'', ''then''), (''OPERATION'', ''turn on'')] = MSG_IF_THEN"
  using C2_then_present_still_reported unfolding tokenize_if_without_device by simp


subsection \<open>A command without tokens\<close>

lemma tokenize_nothing: "tokenize ''when'' = []" "tokenize [] = []"
  by code_simp+

text \<open>
  Claim C4, as amended. When a command has no token, \<open>validate_syntax\<close> answers
  invalid with "Empty command."; the main loop, as for every invalid command, then
  reports what the diagnostic chain says about the raw text and the empty token list.
\<close>

theorem C4_empty_tokens:
  assumes "tokenize user_input = []"
  shows "validate_syntax (tokenize user_input) = (False, ''Empty command.'')
         \<and> main_loop_row user_input = InvalidRow (validate_invalid_command user_input [])"
  using assms by (simp add: main_loop_row_def)

lemma chain_on_nothing: "validate_invalid_command [] [] = MSG_FALLBACK"
  by code_simp

theorem C4_empty_tokens_witness:
  "tokenize [] = []
   \<and> validate_syntax (tokenize []) = (False, ''Empty command.'')
   \<and> main_loop_row [] = InvalidRow MSG_FALLBACK"
  using C4_empty_tokens[OF tokenize_nothing(2)] tokenize_nothing(2) chain_on_nothing by simp

text \<open>
  The command "when" has no token, and the row reports the message of rule (a), not
  "Empty command.".
\<close>

theorem C4_counterexample:
  "tokenize ''when'' = []
   \<and> main_loop_row ''when'' = InvalidRow MSG_WHEN
   \<and> main_loop_row ''when'' \<noteq> InvalidRow ''Empty command.''
   \<and> main_loop_row ''when'' \<noteq> InvalidRow ''Empty command''"
  unfolding main_loop_row_def tokenize_nothing
  by code_simp


subsection \<open>The two diagnostic chains\<close>

text \<open>
  Claim C9, as amended. The chain of \<^verbatim>\<open>flowscript2.py\<close> returns the message of the chain
  of \<^verbatim>\<open>FlowScriptX.py\<close> exactly when the latter is not one of the three messages that
  only \<^verbatim>\<open>FlowScriptX.py\<close> has: of rule (b), of rule (g) and of rule (h).
\<close>

theorem C9_chains_agree_iff:
  "validate_invalid_command2 command tokens = validate_invalid_command command tokens
     \<longleftrightarrow> validate_invalid_command command tokens \<notin> {MSG_OPERATOR, MSG_ON_THEN, MSG_EVERY}"
  by (simp add: validate_invalid_command_def validate_invalid_command2_def Let_def MSG_neq_sym)
    blast

lemma chains_on_lights:
  "validate_invalid_command ''lights'' [(''DEVICE'', ''lights'')] = MSG_FALLBACK"
  by code_simp

theorem C9_chains_agree_iff_witness:
  "validate_invalid_command2 ''lights'' [(''DEVICE'', ''lights'')]
     = validate_invalid_command ''lights'' [(''DEVICE'', ''lights'')]"
  using C9_chains_agree_iff[of "''lights''" "[(''DEVICE'', ''lights'')]"] chains_on_lights MSG_neq_sym
  by simp

text \<open>On the command "on" with its one token the two chains differ.\<close>

theorem C9_counterexample:
  "validate_invalid_command ''on'' [(''EVENT'', ''on'')] = MSG_ON_THEN
   \<and> validate_invalid_command2 ''on'' [(''EVENT'', ''on'')] = MSG_FALLBACK
   \<and> validate_invalid_command ''on'' [(''EVENT'', ''on'')]
       \<noteq> validate_invalid_command2 ''on'' [(''EVENT'', ''on'')]"
  by code_simp

subsection \<open>Ambiguous positions and the order of the table\<close>


lemma first_match_None_iff:
  "first_match ic rules s = None \<longleftrightarrow> matching_rules ic rules s = []"
  by (induction rules) (auto simp: matching_rules_def split: list.splits)




lemma matching_rules_door:
  "matching_rules True TOKEN_PATTERNS ''door'' = [''SENSOR'', ''DEVICE'']"
  by code_simp



subsection \<open>Case\<close>

lemma of_char_lower:
  "(of_char (lower_char c) :: nat) =
     (if (65 \<le> (of_char c :: nat) \<and> (of_char c :: nat) \<le> 90)
         \<or> (192 \<le> (of_char c :: nat) \<and> (of_char c :: nat) \<le> 222 \<and> (of_char c :: nat) \<noteq> 215)
      then of_char c + 32 else of_char c)"
  by (simp add: lower_char_def Let_def)





lemma concat_map_commute:
  assumes "\<And>x. x \<in> set xs \<Longrightarrow> f (h x) = map k (g x)"
  shows "concat (map f (map h xs)) = map k (concat (map g xs))"
  using assms by (induction xs) simp_all















subsection \<open>Characters that no pattern consumes\<close>

lemma lit_prefix_frame:
  assumes "\<forall>p \<in> set l. \<not> lit_eq ic p b"
  shows "lit_prefix ic l (s @ b # rest) = lit_prefix ic l s"
  using assms by (induction ic l s rule: lit_prefix.induct) auto

lemma lit_prefix_length: "lit_prefix ic l s \<Longrightarrow> length l \<le> length s"
  by (induction ic l s rule: lit_prefix.induct) auto

lemma then_match_frame:
  assumes "framed t m"
  shows "then_match (frame_result t r) m = map (frame_result t) (then_match r m)"
  using assms
  by (cases r) (simp add: then_match_def frame_result_def framed_def case_prod_beta)

lemma cat_all_frame:
  assumes "\<forall>m \<in> set ms. framed t m"
  shows "framed t (cat_all ms)"
  using assms
proof (induction ms)
  case Nil
  show ?case by (simp add: framed_def frame_result_def)
next
  case (Cons m ms)
  then have m: "framed t m" and ms: "framed t (cat_all ms)" by simp_all
  show ?case
    unfolding framed_def
  proof
    fix s
    have "cat_all (m # ms) (s @ t)
            = concat (map (\<lambda>r. then_match r (cat_all ms)) (map (frame_result t) (m s)))"
      using m by (simp add: framed_def)
    also have "\<dots> = map (frame_result t) (concat (map (\<lambda>r. then_match r (cat_all ms)) (m s)))"
      by (rule concat_map_commute) (rule then_match_frame[OF ms])
    finally show "cat_all (m # ms) (s @ t) = map (frame_result t) (cat_all (m # ms) s)" by simp
  qed
qed

lemma alt_all_frame:
  assumes "\<forall>m \<in> set ms. framed t m"
  shows "framed t (alt_all ms)"
  using assms
  by (induction ms) (simp_all add: framed_def alt_all_def)

lemma rep_all_frame:
  assumes m: "framed t m"
  shows "rep_all m lo hi (s @ t) = map (frame_result t) (rep_all m lo hi s)"
proof (induction hi arbitrary: lo s)
  case 0
  show ?case by (simp add: frame_result_def)
next
  case (Suc hi)
  have c: "framed t (rep_all m (lo - 1) hi)" using Suc by (simp add: framed_def)
  have "concat (map (\<lambda>r. then_match r (rep_all m (lo - 1) hi)) (m (s @ t)))
          = concat (map (\<lambda>r. then_match r (rep_all m (lo - 1) hi)) (map (frame_result t) (m s)))"
    using m by (simp add: framed_def)
  also have "\<dots> = map (frame_result t)
                      (concat (map (\<lambda>r. then_match r (rep_all m (lo - 1) hi)) (m s)))"
    by (rule concat_map_commute) (rule then_match_frame[OF c])
  finally show ?case by (simp add: frame_result_def)
qed

lemma star_all_frame:
  assumes "framed t m"
  shows "star_all m (s @ t) = map (frame_result t) (star_all m s)"
  using assms
proof (induction m s rule: star_all.induct)
  case (1 m s)
  have m: "m (s @ t) = map (frame_result t) (m s)" using "1.prems" by (simp add: framed_def)
  let ?f = "\<lambda>u r. if length (snd r) < length u
                    then map (\<lambda>(c2, s2). (fst r @ c2, s2)) (star_all m (snd r)) else []"
  have step: "?f (s @ t) (frame_result t x) = map (frame_result t) (?f s x)"
    if "x \<in> set (m s)" for x
  proof (cases "length (snd x) < length s")
    case True
    have "star_all m (snd x @ t) = map (frame_result t) (star_all m (snd x))"
      using "1.IH"[OF that True "1.prems"] .
    with True show ?thesis
      by (simp add: frame_result_def case_prod_beta)
  next
    case False
    then show ?thesis by (simp add: frame_result_def)
  qed
  have "star_all m (s @ t) = concat (map (?f (s @ t)) (map (frame_result t) (m s))) @ [([], s @ t)]"
    by (subst star_all.simps) (simp add: m)
  also have "concat (map (?f (s @ t)) (map (frame_result t) (m s)))
               = map (frame_result t) (concat (map (?f s) (m s)))"
    by (rule concat_map_commute) (rule step)
  also have "map (frame_result t) (concat (map (?f s) (m s))) @ [([], s @ t)]
               = map (frame_result t) (concat (map (?f s) (m s)) @ [([], s)])"
    by (simp add: frame_result_def)
  also have "concat (map (?f s) (m s)) @ [([], s)] = star_all m s"
    by (subst (2) star_all.simps) simp
  finally show ?case .
qed

lemma plus_all_frame:
  assumes "framed t m"
  shows "framed t (plus_all m)"
  unfolding framed_def
proof
  fix s
  have c: "framed t (star_all m)" using star_all_frame[OF assms] by (simp add: framed_def)
  have "plus_all m (s @ t) = concat (map (\<lambda>r. then_match r (star_all m)) (map (frame_result t) (m s)))"
    using assms by (simp add: plus_all_def framed_def)
  also have "\<dots> = map (frame_result t) (concat (map (\<lambda>r. then_match r (star_all m)) (m s)))"
    by (rule concat_map_commute) (rule then_match_frame[OF c])
  finally show "plus_all m (s @ t) = map (frame_result t) (plus_all m s)"
    by (simp add: plus_all_def)
qed

lemma matches_frame: "avoids ic b r \<Longrightarrow> framed (b # rest) (matches ic r)"
proof (induction r)
  case (Str l)
  then have a: "\<forall>p \<in> set l. \<not> lit_eq ic p b" by simp
  show ?case
    using lit_prefix_length[of ic l]
    by (auto simp: framed_def frame_result_def lit_prefix_frame[OF a])
next
  case Digit
  then show ?case
    by (auto simp: framed_def frame_result_def split: list.splits)
next
  case (Cat rs)
  then show ?case using cat_all_frame[of "map (matches ic) rs"] by (simp add: framed_def)
next
  case (Alts rs)
  then show ?case using alt_all_frame[of "map (matches ic) rs"] by (simp add: framed_def)
next
  case (Rep lo hi r)
  then show ?case using rep_all_frame[of _ "matches ic r"] by (simp add: framed_def)
next
  case (Plus r)
  then show ?case using plus_all_frame[of _ "matches ic r"] by (simp add: framed_def)
next
  case (Group r)
  then show ?case
    by (simp add: framed_def frame_result_def case_prod_beta)
qed

subsection \<open>The operators\<close>

lemma lit_eq_True_code:
  "lit_eq True p x = ((of_char (lower_char x) :: nat) = of_char (lower_char p))"
  by (simp add: lit_eq_def)

lemma lit_eq_plain:
  assumes "(of_char p :: nat) < 65 \<or> (90 < (of_char p :: nat) \<and> (of_char p :: nat) < 97)
           \<or> (122 < (of_char p :: nat) \<and> (of_char p :: nat) < 192)"
  shows "lit_eq ic p x = (x = p)"
proof (cases ic)
  case False
  then show ?thesis by (simp add: lit_eq_def)
next
  case True
  have "((of_char (lower_char x) :: nat) = of_char (lower_char p)) = ((of_char x :: nat) = of_char p)"
    using assms by (auto simp: of_char_lower)
  with True show ?thesis by (simp add: lit_eq_True_code)
qed

lemma lit_eq_symbols:
  "lit_eq ic CHR ''>'' x = (x = CHR ''>'')"
  "lit_eq ic CHR ''<'' x = (x = CHR ''<'')"
  "lit_eq ic CHR ''='' x = (x = CHR ''='')"
  "lit_eq ic CHR '':'' x = (x = CHR '':'')"
  "lit_eq ic CHR '' '' x = (x = CHR '' '')"
  by (rule lit_eq_plain; simp)+

lemma operator_frame:
  assumes "s \<noteq> []" and "b = CHR ''>'' \<or> b = CHR ''<''"
  shows "matches ic (alts [''>'', ''<'', ''>='', ''<='', ''=='']) (s @ b # rest)
           = map (frame_result (b # rest)) (matches ic (alts [''>'', ''<'', ''>='', ''<='', ''=='']) s)"
proof -
  obtain x xs where s: "s = x # xs" using assms(1) by (cases s) auto
  show ?thesis
  proof (cases xs)
    case Nil
    with s assms(2) show ?thesis
      by (auto simp: alts_def alt_all_def frame_result_def lit_eq_symbols)
  next
    case (Cons y ys)
    with s show ?thesis
      by (auto simp: alts_def alt_all_def frame_result_def lit_eq_symbols)
  qed
qed

lemma other_rules_avoid_operators:
  "list_all (\<lambda>rule. fst rule = ''OPERATOR''
                      \<or> (avoids True CHR ''>'' (snd rule) \<and> avoids True CHR ''<'' (snd rule)))
            TOKEN_PATTERNS"
  by code_simp

lemma token_rule_frame:
  assumes "(key, pattern) \<in> set TOKEN_PATTERNS" and "s \<noteq> []"
      and b: "b = CHR ''>'' \<or> b = CHR ''<''"
  shows "matches True pattern (s @ b # rest) = map (frame_result (b # rest)) (matches True pattern s)"
proof (cases "key = ''OPERATOR''")
  case True
  with assms(1) have "pattern = alts [''>'', ''<'', ''>='', ''<='', ''=='']"
    by (auto simp: TOKEN_PATTERNS_def)
  then show ?thesis using operator_frame[OF assms(2) b] by simp
next
  case False
  with assms(1) other_rules_avoid_operators
  have "avoids True CHR ''>'' pattern \<and> avoids True CHR ''<'' pattern"
    by (auto simp: list_all_iff)
  with b have "avoids True b pattern" by auto
  then show ?thesis using matches_frame[of True b pattern rest] by (simp add: framed_def)
qed

lemma first_match_frame:
  assumes "\<And>key pattern. (key, pattern) \<in> set rules \<Longrightarrow>
             matches ic pattern (s @ t) = map (frame_result t) (matches ic pattern s)"
  shows "first_match ic rules (s @ t)
           = map_option (\<lambda>(key, rest). (key, rest @ t)) (first_match ic rules s)"
  using assms
proof (induction rules)
  case Nil
  show ?case by simp
next
  case (Cons rule rules)
  obtain key pattern where rule: "rule = (key, pattern)" by (cases rule)
  have m: "matches ic pattern (s @ t) = map (frame_result t) (matches ic pattern s)"
    using Cons.prems[of key pattern] rule by simp
  have "first_match ic rules (s @ t)
          = map_option (\<lambda>(key, rest). (key, rest @ t)) (first_match ic rules s)"
  proof (rule Cons.IH)
    fix key' pattern'
    assume "(key', pattern') \<in> set rules"
    then show "matches ic pattern' (s @ t) = map (frame_result t) (matches ic pattern' s)"
      using Cons.prems[of key' pattern'] by simp
  qed
  with m rule show ?case
    by (cases "matches ic pattern s") (auto simp: frame_result_def)
qed

lemma finditer_frame:
  assumes fr: "\<And>key pattern s. (key, pattern) \<in> set rules \<Longrightarrow> s \<noteq> [] \<Longrightarrow>
             matches ic pattern (s @ t) = map (frame_result t) (matches ic pattern s)"
  shows "finditer ic rules (s @ t) = finditer ic rules s @ finditer ic rules t"
  using fr
proof (induction ic rules s rule: finditer.induct)
  case (1 ic rules)
  show ?case by simp
next
  case (2 ic rules c cs)
  note fr = "2.prems"
  have fm: "first_match ic rules (c # cs @ t)
              = map_option (\<lambda>(key, rest). (key, rest @ t)) (first_match ic rules (c # cs))"
  proof -
    have "first_match ic rules ((c # cs) @ t)
            = map_option (\<lambda>(key, rest). (key, rest @ t)) (first_match ic rules (c # cs))"
      by (rule first_match_frame) (rule fr, assumption, simp)
    then show ?thesis by simp
  qed
  show ?case
  proof (cases "first_match ic rules (c # cs)")
    case None
    with "2.IH"(1)[OF None fr] fm show ?thesis by simp
  next
    case (Some kr)
    obtain key rest where kr: "kr = (key, rest)" by (cases kr)
    show ?thesis
    proof (cases "length rest < length (c # cs)")
      case True
      have "finditer ic rules (rest @ t) = finditer ic rules rest @ finditer ic rules t"
        using "2.IH"(2)[OF Some[unfolded kr] refl True fr] .
      moreover have "take n (c # cs @ t) = take n (c # cs)" if "n \<le> Suc (length cs)" for n
        using that take_append[of n "c # cs" t] by simp
      ultimately show ?thesis using True Some kr fm by simp
    next
      case False
      have "finditer ic rules (cs @ t) = finditer ic rules cs @ finditer ic rules t"
        using "2.IH"(3)[OF Some[unfolded kr] refl False fr] .
      with False Some kr fm show ?thesis by simp
    qed
  qed
qed

lemma tokenize_before_operator:
  assumes "b = CHR ''>'' \<or> b = CHR ''<''"
  shows "tokenize (pre @ b # rest) = tokenize pre @ tokenize (b # rest)"
  unfolding tokenize_def
  by (rule finditer_frame) (rule token_rule_frame[OF _ _ assms])

lemmas match_simps =
  TOKEN_PATTERNS_def alts_def alt_all_def plus_all_def then_match_def
  numeral_2_eq_2 lit_eq_True_code of_char_lower is_digit_def

lemma first_match_gt:
  "first_match True TOKEN_PATTERNS (CHR ''>'' # rest) = Some (''OPERATOR'', rest)"
  by (simp add: match_simps)

lemma first_match_lt:
  "first_match True TOKEN_PATTERNS (CHR ''<'' # rest) = Some (''OPERATOR'', rest)"
  by (simp add: match_simps)

lemma lit_prefix_one: "lit_prefix ic [p] s = (case s of [] \<Rightarrow> False | x # xs \<Rightarrow> lit_eq ic p x)"
  by (cases s) simp_all

lemma first_match_eq:
  assumes "\<not> prefix ''='' rest"
  shows "first_match True TOKEN_PATTERNS (CHR ''='' # rest) = None"
proof -
  have "\<not> lit_prefix True ''='' rest"
    using assms by (cases rest) (simp_all add: lit_eq_symbols)
  then show ?thesis by (simp add: match_simps)
qed

lemma tokenize_operator:
  "tokenize (CHR ''>'' # rest) = (''OPERATOR'', ''>'') # tokenize rest"
  "tokenize (CHR ''<'' # rest) = (''OPERATOR'', ''<'') # tokenize rest"
  by (simp_all add: tokenize_def first_match_gt first_match_lt)

lemma tokenize_equals_dropped:
  assumes "\<not> prefix ''='' rest"
  shows "tokenize (CHR ''='' # rest) = tokenize rest"
  by (simp add: tokenize_def first_match_eq[OF assms])

text \<open>
  Claim C10, as amended. In a command that contains ">=" (or "<="), where the text
  after it does not begin with a further "=", the tokenizer emits for these two
  characters the single token OPERATOR ">" (or "<") and drops the "=": the tokens are
  those of the text before, this token, and those of the text after. The command
  therefore has the tokens, and the validity, of the command with ">" (or "<") alone.
\<close>

theorem C10_equals_dropped:
  assumes "\<not> prefix ''='' rest"
  shows "tokenize (pre @ ''>='' @ rest) = tokenize pre @ (''OPERATOR'', ''>'') # tokenize rest
       \<and> tokenize (pre @ ''<='' @ rest) = tokenize pre @ (''OPERATOR'', ''<'') # tokenize rest
       \<and> tokenize (pre @ ''>='' @ rest) = tokenize (pre @ ''>'' @ rest)
       \<and> tokenize (pre @ ''<='' @ rest) = tokenize (pre @ ''<'' @ rest)
       \<and> validate_syntax (tokenize (pre @ ''>='' @ rest))
           = validate_syntax (tokenize (pre @ ''>'' @ rest))
       \<and> validate_syntax (tokenize (pre @ ''<='' @ rest))
           = validate_syntax (tokenize (pre @ ''<'' @ rest))"
proof -
  have ge: "tokenize (pre @ ''>='' @ rest) = tokenize pre @ (''OPERATOR'', ''>'') # tokenize rest"
    using tokenize_before_operator[of "CHR ''>''" pre "CHR ''='' # rest"]
    by (simp add: tokenize_operator tokenize_equals_dropped[OF assms])
  have le: "tokenize (pre @ ''<='' @ rest) = tokenize pre @ (''OPERATOR'', ''<'') # tokenize rest"
    using tokenize_before_operator[of "CHR ''<''" pre "CHR ''='' # rest"]
    by (simp add: tokenize_operator tokenize_equals_dropped[OF assms])
  have gt: "tokenize (pre @ ''>'' @ rest) = tokenize pre @ (''OPERATOR'', ''>'') # tokenize rest"
    using tokenize_before_operator[of "CHR ''>''" pre rest]
    by (simp add: tokenize_operator)
  have lt: "tokenize (pre @ ''<'' @ rest) = tokenize pre @ (''OPERATOR'', ''<'') # tokenize rest"
    using tokenize_before_operator[of "CHR ''<''" pre rest]
    by (simp add: tokenize_operator)
  show ?thesis by (simp only: ge le gt lt simp_thms)
qed

theorem C10_equals_dropped_witness:
  "tokenize ''if temperature >= 30 then turn on AC''
     = tokenize ''if temperature > 30 then turn on AC''
   \<and> validate_syntax (tokenize ''if temperature >= 30 then turn on AC'')
     = (True, ''Valid command.'')"
proof -
  have np: "\<not> prefix ''='' '' 30 then turn on AC''" by simp
  have ge: "''if temperature '' @ ''>='' @ '' 30 then turn on AC''
              = ''if temperature >= 30 then turn on AC''" by simp
  have gt: "''if temperature '' @ ''>'' @ '' 30 then turn on AC''
              = ''if temperature > 30 then turn on AC''" by simp
  note all = C10_equals_dropped[OF np, of "''if temperature ''", unfolded ge gt]
  have eq: "tokenize ''if temperature >= 30 then turn on AC''
              = tokenize ''if temperature > 30 then turn on AC''"
    using all[THEN conjunct2, THEN conjunct2, THEN conjunct1] .
  show ?thesis
    by (simp only: eq tokenize_example_if validate_syntax_examples(3) simp_thms)
qed

text \<open>In ">==" the sign after ">" is not dropped: it starts the token "==".\<close>

theorem C10_counterexample:
  "tokenize ''>=='' = [(''OPERATOR'', ''>''), (''OPERATOR'', ''=='')]"
  by code_simp

end
